theory Spec2Isabelle
  imports
    Complex_Main
    "HOL-Library.Log_Nat"
    "HOL-Library.Sublist"
    "HOL-Library.AList"
    "HOL-Library.Multiset"
begin

section \<open>JavaScript numbers\<close>

text \<open>
  Every \<^verbatim>\<open>number\<close> of the dashboard (\<^verbatim>\<open>final_rate\<close>, \<^verbatim>\<open>rounds\<close>, the sums and the
  averages) is an IEEE 754 binary64 value. A finite value is kept as the rational it
  denotes; the two infinities and NaN are separate constructors. The two zeros are
  identified, as \<^verbatim>\<open>===\<close> does: the code below only adds numbers and divides a sum by
  an array length, and neither result depends on the sign of a zero operand.
\<close>

datatype number = Fin rat | PosInf | NegInf | NaN

text \<open>\<open>ilog2 q\<close> is the binary exponent of a positive rational: \<open>2 ^ ilog2 q \<le> q < 2 ^ (ilog2 q + 1)\<close>.\<close>

definition ilog2 :: "rat \<Rightarrow> int" where
  "ilog2 q = (case quotient_of q of (a, b) \<Rightarrow>
     let d = bitlen a - bitlen b in if power_int 2 d \<le> q then d else d - 1)"

definition round_half_even :: "rat \<Rightarrow> int" where
  "round_half_even q =
     (let f = \<lfloor>q\<rfloor>; r = q - of_int f
      in if r < 1 / 2 then f
         else if 1 / 2 < r then f + 1
         else if even f then f else f + 1)"

text \<open>
  Rounding of an exact result to binary64, round-to-nearest, ties-to-even: 53 significant
  bits, the least exponent of a normal number is \<open>-1022\<close>, below it the spacing stays
  \<open>2 ^ -1074\<close> (subnormal numbers), and a rounded magnitude of \<open>2 ^ 1024\<close> or more
  (binary exponent at least \<open>1024\<close>) is an infinity.
\<close>

definition round_double :: "rat \<Rightarrow> number" where
  "round_double q =
     (if q = 0 then Fin 0
      else
        let e = max (ilog2 \<bar>q\<bar>) (- 1022) - 52;
            m = round_half_even (\<bar>q\<bar> / power_int 2 e);
            v = of_int m * power_int 2 e
        in if 1024 \<le> ilog2 v then (if 0 < q then PosInf else NegInf)
           else Fin (sgn q * v))"

text \<open>The operator \<^verbatim>\<open>+\<close> on two numbers.\<close>

fun js_add :: "number \<Rightarrow> number \<Rightarrow> number" where
  "js_add (Fin a) (Fin b) = round_double (a + b)"
| "js_add NaN y = NaN"
| "js_add x NaN = NaN"
| "js_add PosInf NegInf = NaN"
| "js_add NegInf PosInf = NaN"
| "js_add PosInf y = PosInf"
| "js_add x PosInf = PosInf"
| "js_add NegInf y = NegInf"
| "js_add x NegInf = NegInf"

text \<open>
  The operator \<^verbatim>\<open>/\<close> with an array length as divisor (\<^verbatim>\<open>sum / logs.length\<close>,
  \<^verbatim>\<open>sum / rates.length\<close>). A length is a non-negative integer below \<open>2 ^ 32\<close>, so it is
  an exact number; dividing by the length \<open>0\<close> is dividing by positive zero.
\<close>

fun js_div_length :: "number \<Rightarrow> nat \<Rightarrow> number" where
  "js_div_length (Fin a) n =
     (if n = 0 then (if a = 0 then NaN else if 0 < a then PosInf else NegInf)
      else round_double (a / of_nat n))"
| "js_div_length PosInf n = PosInf"
| "js_div_length NegInf n = NegInf"
| "js_div_length NaN n = NaN"

section \<open>JavaScript strings\<close>

text \<open>
  A string is the list of the bytes of its UTF-8 form, so an ASCII string is the list of
  its characters. \<open>str_includes s t\<close> is \<^verbatim>\<open>s.includes(t)\<close>: \<open>t\<close> occurs in \<open>s\<close> as a
  contiguous block (for well-formed strings, as bytes exactly when as UTF-16 code
  units). \<^verbatim>\<open>String.prototype.toLowerCase\<close> is the platform's case mapping
  of Unicode: it is not defined here, and the search filter below takes it as the
  parameter \<open>toLowerCase\<close>.
\<close>

fun str_includes :: "string \<Rightarrow> string \<Rightarrow> bool" where
  "str_includes [] t = (t = [])"
| "str_includes (c # s) t = (prefix t (c # s) \<or> str_includes s t)"

text \<open>\<^verbatim>\<open>s.replace(a, b)\<close> for one-character strings: only the first occurrence is replaced.\<close>

fun replace_first :: "char \<Rightarrow> char \<Rightarrow> string \<Rightarrow> string" where
  "replace_first a b [] = []"
| "replace_first a b (c # s) = (if c = a then b # s else c # replace_first a b s)"

text \<open>Decimal rendering of a non-negative integer, as a template literal prints it.\<close>

fun digits :: "nat \<Rightarrow> string" where
  "digits n = (if n < 10 then [char_of (48 + n)] else digits (n div 10) @ [char_of (48 + n mod 10)])"

declare digits.simps [simp del]

section \<open>Log records\<close>

datatype outcome = Accepted | Declined | No_agreement

datatype sentiment = Positive | Neutral | Negative

text \<open>The string literals behind the two union types of \<^verbatim>\<open>LogData\<close>.\<close>

fun outcome_str :: "outcome \<Rightarrow> string" where
  "outcome_str Accepted = ''accepted''"
| "outcome_str Declined = ''declined''"
| "outcome_str No_agreement = ''no_agreement''"

fun sentiment_str :: "sentiment \<Rightarrow> string" where
  "sentiment_str Positive = ''positive''"
| "sentiment_str Neutral = ''neutral''"
| "sentiment_str Negative = ''negative''"

text \<open>
  The interface \<^verbatim>\<open>LogData\<close>. The fields \<open>rec_id\<close> and \<open>log_notes\<close> are the
  properties \<^verbatim>\<open>id\<close> and \<^verbatim>\<open>notes\<close>.
\<close>

record LogData =
  rec_id :: string
  mc_number :: string
  load_id :: string
  final_rate :: number
  outcome :: outcome
  sentiment :: sentiment
  rounds :: number
  log_notes :: string
  created_at :: string

definition OUTCOME_COLORS :: "(string \<times> string) list" where
  "OUTCOME_COLORS =
     [(''accepted'', ''#10b981''), (''declined'', ''#ef4444''), (''no_agreement'', ''#f59e0b'')]"

definition SENTIMENT_COLORS :: "(string \<times> string) list" where
  "SENTIMENT_COLORS =
     [(''positive'', ''#10b981''), (''neutral'', ''#6b7280''), (''negative'', ''#ef4444'')]"

section \<open>The search filter\<close>

text \<open>
  \<^verbatim>\<open>filteredLogs\<close> (the operation \<^verbatim>\<open>filterBySearchTerm\<close>): the empty search term is
  falsy and gives the logs back; otherwise \<^verbatim>\<open>Array.prototype.filter\<close> keeps, in order,
  the logs one of whose four fields includes the term, both in lower case as
  \<open>toLowerCase\<close> gives it.
\<close>

definition matches :: "(string \<Rightarrow> string) \<Rightarrow> string \<Rightarrow> LogData \<Rightarrow> bool" where
  "matches toLowerCase searchTerm = (\<lambda>log.
      str_includes (toLowerCase (mc_number log)) (toLowerCase searchTerm) \<or>
      str_includes (toLowerCase (load_id log)) (toLowerCase searchTerm) \<or>
      str_includes (toLowerCase (outcome_str (outcome log))) (toLowerCase searchTerm) \<or>
      str_includes (toLowerCase (sentiment_str (sentiment log))) (toLowerCase searchTerm))"

definition filteredLogs :: "(string \<Rightarrow> string) \<Rightarrow> LogData list \<Rightarrow> string \<Rightarrow> LogData list" where
  "filteredLogs toLowerCase logs searchTerm =
     (if searchTerm = [] then logs else filter (matches toLowerCase searchTerm) logs)"

section \<open>Summary statistics\<close>

record Stats =
  accepted :: nat
  declined :: nat
  avgFinalRate :: number
  avgRounds :: number

text \<open>\<^verbatim>\<open>stats\<close> (the operation \<^verbatim>\<open>computeSummaryStats\<close>).\<close>

definition stats :: "LogData list \<Rightarrow> Stats" where
  "stats logs =
     (if length logs = 0
      then \<lparr>accepted = 0, declined = 0, avgFinalRate = Fin 0, avgRounds = Fin 0\<rparr>
      else
        \<lparr>accepted = length (filter (\<lambda>log. outcome log = Accepted) logs),
         declined = length (filter (\<lambda>log. outcome log = Declined) logs),
         avgFinalRate =
           js_div_length (foldl (\<lambda>sum log. js_add sum (final_rate log)) (Fin 0) logs) (length logs),
         avgRounds =
           js_div_length (foldl (\<lambda>sum log. js_add sum (rounds log)) (Fin 0) logs) (length logs)\<rparr>)"

section \<open>Chart data\<close>

text \<open>
  The accumulators of the three \<^verbatim>\<open>reduce\<close> calls are plain objects used as
  dictionaries. An object with string keys, none of them an array index, lists its keys
  in the order in which they were first assigned: it is modelled as an association list
  in which an assignment to a present key keeps the key's place (\<open>AList.update\<close>) and
  an assignment to a new key appends it. The keys are the three outcome literals, the
  three sentiment literals and calendar dates, none of which is an array index or a
  property inherited from \<^verbatim>\<open>Object.prototype\<close>.
\<close>

text \<open>\<^verbatim>\<open>acc[k] || 0\<close>: a missing property is \<^verbatim>\<open>undefined\<close>, and \<^verbatim>\<open>0\<close> is falsy too.\<close>

definition or_zero :: "nat option \<Rightarrow> nat" where
  "or_zero v = (case v of None \<Rightarrow> 0 | Some c \<Rightarrow> if c = 0 then 0 else c)"

record ChartEntry =
  name :: string
  val :: nat
  color :: "string option"

definition outcomeCounts :: "LogData list \<Rightarrow> (string \<times> nat) list" where
  "outcomeCounts logs =
     foldl (\<lambda>acc log.
              AList.update (outcome_str (outcome log))
                (or_zero (map_of acc (outcome_str (outcome log))) + 1) acc)
       [] logs"

text \<open>
  \<^verbatim>\<open>outcomeData\<close> (the operation \<^verbatim>\<open>computeOutcomeDistribution\<close>). The field \<open>val\<close> is
  the property \<^verbatim>\<open>value\<close>; \<open>color\<close> is \<open>None\<close> where the table has no such key.
\<close>

definition computeOutcomeDistribution :: "LogData list \<Rightarrow> ChartEntry list" where
  "computeOutcomeDistribution logs =
     map (\<lambda>(k, count).
            \<lparr>name = replace_first (CHR ''_'') (CHR '' '') k, val = count,
             color = map_of OUTCOME_COLORS k\<rparr>)
       (outcomeCounts logs)"

definition sentimentCounts :: "LogData list \<Rightarrow> (string \<times> nat) list" where
  "sentimentCounts logs =
     foldl (\<lambda>acc log.
              AList.update (sentiment_str (sentiment log))
                (or_zero (map_of acc (sentiment_str (sentiment log))) + 1) acc)
       [] logs"

text \<open>\<^verbatim>\<open>sentimentData\<close> (the operation \<^verbatim>\<open>computeSentimentDistribution\<close>).\<close>

definition computeSentimentDistribution :: "LogData list \<Rightarrow> ChartEntry list" where
  "computeSentimentDistribution logs =
     map (\<lambda>(k, count). \<lparr>name = k, val = count, color = map_of SENTIMENT_COLORS k\<rparr>)
       (sentimentCounts logs)"

subsection \<open>Dates\<close>

text \<open>
  \<^verbatim>\<open>new Date(s)\<close> is the platform's: the functions below take it as the parameter
  \<open>parse\<close>, which gives the time value of \<open>s\<close> in milliseconds since the epoch, or
  \<open>None\<close> for an invalid date. \<^verbatim>\<open>toISOString\<close> throws a \<^verbatim>\<open>RangeError\<close> on an
  invalid date and prints a valid one in UTC; the part before \<^verbatim>\<open>T\<close> is the calendar
  date of the day the time value falls on. That date is represented by the number of
  its day, counted from 1970-01-01: dates and day numbers correspond one to one, and
  \<^verbatim>\<open>new Date(date).getTime()\<close> of a date is the time value of its midnight in UTC.
\<close>

datatype error = RangeError

type_synonym iso_date = int

definition msPerDay :: int where
  "msPerDay = 86400000"

definition toISODate :: "int \<Rightarrow> iso_date" where
  "toISODate t = t div msPerDay"

definition getTime :: "iso_date \<Rightarrow> int" where
  "getTime d = d * msPerDay"

record TrendPoint =
  date :: iso_date
  avgRate :: number

text \<open>
  One step of the \<^verbatim>\<open>reduce\<close> that builds \<^verbatim>\<open>dailyRates\<close>. An exception thrown in a step
  ends the whole computation, so an accumulator that is an error stays one. The value
  kept under a date is the pair of \<^verbatim>\<open>rates\<close> and \<^verbatim>\<open>date\<close>.
\<close>

definition dailyRates_step ::
  "(string \<Rightarrow> int option) \<Rightarrow> error + (iso_date \<times> number list \<times> iso_date) list \<Rightarrow> LogData
     \<Rightarrow> error + (iso_date \<times> number list \<times> iso_date) list" where
  "dailyRates_step parse acc = (\<lambda>log.
     case acc of
       Inl e \<Rightarrow> Inl e
     | Inr m \<Rightarrow>
         (case parse (created_at log) of
            None \<Rightarrow> Inl RangeError
          | Some t \<Rightarrow>
              let d = toISODate t;
                  m' = (if map_of m d = None then AList.update d ([], d) m else m)
              in Inr (AList.map_entry d (\<lambda>(rates, d'). (rates @ [final_rate log], d')) m')))"

definition dailyRates ::
  "(string \<Rightarrow> int option) \<Rightarrow> LogData list \<Rightarrow> error + (iso_date \<times> number list \<times> iso_date) list" where
  "dailyRates parse logs = foldl (dailyRates_step parse) (Inr []) logs"

text \<open>\<^verbatim>\<open>slice(-n)\<close>: the last \<open>n\<close> elements, all of them when there are fewer.\<close>

definition slice_last :: "nat \<Rightarrow> 'a list \<Rightarrow> 'a list" where
  "slice_last n xs = drop (length xs - n) xs"

text \<open>
  \<^verbatim>\<open>trendData\<close> (the operation \<^verbatim>\<open>computeDailyRateTrend\<close>). \<^verbatim>\<open>Array.prototype.sort\<close> is
  stable and its comparator is the difference of the two time values, so it is a stable
  sort by \<open>getTime\<close>.
\<close>

definition computeDailyRateTrend ::
  "(string \<Rightarrow> int option) \<Rightarrow> LogData list \<Rightarrow> error + TrendPoint list" where
  "computeDailyRateTrend parse logs =
     (case dailyRates parse logs of
        Inl e \<Rightarrow> Inl e
      | Inr m \<Rightarrow>
          Inr (slice_last 7
                (sort_key (\<lambda>a. getTime (date a))
                  (map (\<lambda>(rates, d).
                          \<lparr>date = d,
                           avgRate = js_div_length (foldl (\<lambda>sum rate. js_add sum rate) (Fin 0) rates)
                                       (length rates)\<rparr>)
                     (map snd m)))))"

record ChartData =
  outcomeData :: "ChartEntry list"
  sentimentData :: "ChartEntry list"
  trendData :: "TrendPoint list"

definition chartData :: "(string \<Rightarrow> int option) \<Rightarrow> LogData list \<Rightarrow> error + ChartData" where
  "chartData parse logs =
     (if length logs = 0 then Inr \<lparr>outcomeData = [], sentimentData = [], trendData = []\<rparr>
      else
        (case computeDailyRateTrend parse logs of
           Inl e \<Rightarrow> Inl e
         | Inr t \<Rightarrow>
             Inr \<lparr>outcomeData = computeOutcomeDistribution logs,
                  sentimentData = computeSentimentDistribution logs,
                  trendData = t\<rparr>))"

section \<open>The proxy route\<close>

text \<open>
  The handler of \<^verbatim>\<open>GET /api/logs\<close> makes one \<^verbatim>\<open>fetch\<close>. What comes back is its input
  here: the request is rejected (a network failure), or there is a response with a
  status, a status text and a body, whose decoding by \<^verbatim>\<open>response.json()\<close> gives a JSON
  value or fails (\<open>None\<close>). The reply is a status and a body, which is a JSON value passed
  to \<^verbatim>\<open>res.json\<close> or an object with the one property \<^verbatim>\<open>message\<close>.
\<close>

datatype 'j fetched = Rejected | Response nat string "'j option"

datatype 'j reply_body = Json 'j | Message string

definition api_logs :: "'j fetched \<Rightarrow> nat \<times> 'j reply_body" where
  "api_logs r =
     (case r of
        Rejected \<Rightarrow> (500, Message ''Failed to fetch data from external API'')
      | Response status statusText body \<Rightarrow>
          if \<not> (200 \<le> status \<and> status \<le> 299)
          then (status, Message (''External API error: '' @ digits status @ '' '' @ statusText))
          else
            (case body of
               None \<Rightarrow> (500, Message ''Failed to fetch data from external API'')
             | Some data \<Rightarrow> (200, Json data)))"

section \<open>Notions of the specification\<close>

text \<open>The distinct elements of a list, each at the place of its first occurrence.\<close>

fun first_occurrences :: "'a list \<Rightarrow> 'a list" where
  "first_occurrences [] = []"
| "first_occurrences (x # xs) = x # filter (\<lambda>y. y \<noteq> x) (first_occurrences xs)"

text \<open>
  The arithmetic mean of a list of numbers in the arithmetic of the program: the sum,
  taken from left to right starting at \<open>0\<close>, divided by the count.
\<close>

definition js_sum :: "number list \<Rightarrow> number" where
  "js_sum xs = foldl js_add (Fin 0) xs"

definition mean :: "number list \<Rightarrow> number" where
  "mean xs = js_div_length (js_sum xs) (length xs)"

text \<open>The UTC calendar date of a record, where its \<^verbatim>\<open>created_at\<close> is a valid date.\<close>

definition utc_date :: "(string \<Rightarrow> int option) \<Rightarrow> LogData \<Rightarrow> iso_date option" where
  "utc_date parse = (\<lambda>log. map_option toISODate (parse (created_at log)))"

text \<open>The distinct dates present in the data, in ascending order.\<close>

definition dates_present :: "(string \<Rightarrow> int option) \<Rightarrow> LogData list \<Rightarrow> iso_date list" where
  "dates_present parse logs = sorted_list_of_set (set (List.map_filter (utc_date parse) logs))"


text \<open>
  The rational that a finite number denotes. A number is integral when it is finite and
  denotes an integer. The magnitudes of a list of integral numbers may add up to at
  most \<open>2 ^ 53\<close>: then every partial sum is an integer that binary64 represents, and
  no addition rounds.
\<close>

fun rat_of :: "number \<Rightarrow> rat" where
  "rat_of (Fin q) = q"
| "rat_of x = 0"

fun integral :: "number \<Rightarrow> bool" where
  "integral (Fin q) = (of_int \<lfloor>q\<rfloor> = q)"
| "integral x = False"

definition exact_ints :: "number list \<Rightarrow> bool" where
  "exact_ints xs = (list_all integral xs \<and> sum_list (map (\<lambda>x. \<bar>rat_of x\<bar>) xs) \<le> 2 ^ 53)"

section \<open>Sample data\<close>

text \<open>Records used to evaluate the operations on concrete input.\<close>

definition sample_log ::
  "string \<Rightarrow> string \<Rightarrow> number \<Rightarrow> outcome \<Rightarrow> sentiment \<Rightarrow> number \<Rightarrow> string \<Rightarrow> LogData" where
  "sample_log mc ld rate oc se rd ts =
     \<lparr>rec_id = ld, mc_number = mc, load_id = ld, final_rate = rate, outcome = oc,
      sentiment = se, rounds = rd, log_notes = [], created_at = ts\<rparr>"

text \<open>
  Time values of the timestamps of the sample records, as \<^verbatim>\<open>new Date(s).getTime()\<close>
  gives them; any other string is taken as an invalid date.
\<close>

definition sample_parse :: "string \<Rightarrow> int option" where
  "sample_parse =
     map_of
     [(''2024-01-05T10:00:00Z'', 1704448800000),
      (''2024-01-01T08:00:00Z'', 1704096000000),
      (''2024-01-09T23:59:59Z'', 1704844799000),
      (''2024-01-03T12:00:00Z'', 1704283200000),
      (''2024-01-05T18:30:00Z'', 1704479400000),
      (''2024-01-02T00:00:00Z'', 1704153600000),
      (''2024-01-08T07:15:00Z'', 1704698100000),
      (''2024-01-04T09:00:00Z'', 1704358800000),
      (''2024-01-07T16:45:00Z'', 1704645900000),
      (''2024-01-06T11:11:11Z'', 1704539471000)]"

text \<open>Ten records on nine calendar dates, not in the order of their dates.\<close>

definition sample_logs :: "LogData list" where
  "sample_logs =
     [sample_log ''MC101'' ''L-1005'' (Fin 1500) No_agreement Positive (Fin 2) ''2024-01-05T10:00:00Z'',
      sample_log ''MC102'' ''L-1001'' (Fin 1000) Declined Negative (Fin 3) ''2024-01-01T08:00:00Z'',
      sample_log ''MC103'' ''L-1009'' (Fin 1900) Accepted Neutral (Fin 1) ''2024-01-09T23:59:59Z'',
      sample_log ''MC104'' ''L-1003'' (Fin 1300) Accepted Neutral (Fin 4) ''2024-01-03T12:00:00Z'',
      sample_log ''MC105'' ''L-1015'' (Fin 1600) Accepted Positive (Fin 2) ''2024-01-05T18:30:00Z'',
      sample_log ''MC106'' ''L-1002'' (Fin 1200) Declined Negative (Fin 5) ''2024-01-02T00:00:00Z'',
      sample_log ''MC107'' ''L-1008'' (Fin 1800) Accepted Positive (Fin 1) ''2024-01-08T07:15:00Z'',
      sample_log ''MC108'' ''L-1004'' (Fin 1400) No_agreement Negative (Fin 3) ''2024-01-04T09:00:00Z'',
      sample_log ''MC109'' ''L-1007'' (Fin 1700) Accepted Neutral (Fin 2) ''2024-01-07T16:45:00Z'',
      sample_log ''MC110'' ''L-1006'' (Fin 1650) Declined Positive (Fin 2) ''2024-01-06T11:11:11Z'']"

text \<open>Three records with outcomes accepted, accepted, declined and rates 100, 200, 300.\<close>

definition scenario_logs :: "LogData list" where
  "scenario_logs =
     [sample_log ''MC301'' ''L-3001'' (Fin 100) Accepted Positive (Fin 1) ''2024-01-01T08:00:00Z'',
      sample_log ''MC302'' ''L-3002'' (Fin 200) Accepted Neutral (Fin 2) ''2024-01-02T00:00:00Z'',
      sample_log ''MC303'' ''L-3003'' (Fin 300) Declined Negative (Fin 3) ''2024-01-03T12:00:00Z'']"







text \<open>
  Three records whose rates are the numbers \<^verbatim>\<open>0.1\<close>, \<^verbatim>\<open>0.2\<close> and \<^verbatim>\<open>0.3\<close>, that is,
  the binary64 values nearest to these decimals.
\<close>

definition dime_logs :: "LogData list" where
  "dime_logs =
     [sample_log ''MC201'' ''L-2001'' (round_double (1 / 10)) Accepted Positive (Fin 1)
        ''2024-01-01T08:00:00Z'',
      sample_log ''MC202'' ''L-2002'' (round_double (2 / 10)) Accepted Neutral (Fin 2)
        ''2024-01-02T00:00:00Z'',
      sample_log ''MC203'' ''L-2003'' (round_double (3 / 10)) Declined Negative (Fin 3)
        ''2024-01-03T12:00:00Z'']"

section \<open>Substrings\<close>



section \<open>Properties of the search filter\<close>



text \<open>
  Claim C9. Filtering an already filtered result again with the same term changes
  nothing, whatever the case mapping is.
\<close>

theorem filteredLogs_idempotent:
  "filteredLogs toLowerCase (filteredLogs toLowerCase logs t) t = filteredLogs toLowerCase logs t"
  by (simp add: filteredLogs_def)

section \<open>Properties of the summary statistics\<close>

lemma two_filters_le:
  "length (filter (\<lambda>x. f x = a) xs) + length (filter (\<lambda>x. f x = b) xs) \<le> length xs" if "a \<noteq> b"
  using that by (induction xs) auto

text \<open>
  Claim C7. The empty sequence is not an error: \<open>stats\<close> gives zero counts and zero
  averages, \<open>chartData\<close> returns three empty tables, and each of the three aggregate
  operations returns the empty table, whatever the date parser does.
\<close>

theorem empty_dataset:
  "stats [] = \<lparr>accepted = 0, declined = 0, avgFinalRate = Fin 0, avgRounds = Fin 0\<rparr> \<and>
   chartData parse [] = Inr \<lparr>outcomeData = [], sentimentData = [], trendData = []\<rparr> \<and>
   computeOutcomeDistribution [] = [] \<and> computeSentimentDistribution [] = [] \<and>
   computeDailyRateTrend parse [] = Inr []"
  by (simp add: stats_def chartData_def computeOutcomeDistribution_def outcomeCounts_def
      computeSentimentDistribution_def sentimentCounts_def computeDailyRateTrend_def
      dailyRates_def slice_last_def)

text \<open>
  Claim C8. On a non-empty sequence the accepted and the declined count together are
  at most the number of records.
\<close>

theorem counts_le_length:
  "logs \<noteq> [] \<Longrightarrow> accepted (stats logs) + declined (stats logs) \<le> length logs"
  by (simp add: stats_def two_filters_le)

theorem counts_le_length_witness:
  "scenario_logs \<noteq> [] \<and>
   accepted (stats scenario_logs) + declined (stats scenario_logs) \<le> length scenario_logs"
proof -
  have ne: "scenario_logs \<noteq> []"
    by (simp add: scenario_logs_def)
  from counts_le_length[OF ne] ne show ?thesis
    by simp
qed

section \<open>Rounding\<close>

text \<open>
  \<open>ilog2\<close> is the binary exponent, and a finite result of \<open>round_double\<close> is a binary64
  value (an integer of at most 53 bits times a power of two not below \<open>2 ^ -1074\<close>, of
  magnitude below \<open>2 ^ 1024\<close>) within half a unit in the last place of the exact value.
\<close>

lemma power_int_bitlen_diff:
  assumes "0 < a" "0 < b"
  shows "power_int (2::rat) (bitlen a - bitlen b - 1) < of_int a / of_int b"
    and "of_int a / of_int b < power_int (2::rat) (bitlen a - bitlen b + 1)"
proof -
  have la: "1 \<le> bitlen a" and lb: "1 \<le> bitlen b"
    using assms by (simp_all add: bitlen_alt_def)
  have a: "(2::rat) ^ nat (bitlen a - 1) \<le> of_int a" "(of_int a :: rat) < 2 ^ nat (bitlen a)"
    using bitlen_bounds[OF assms(1)]
    by (metis of_int_le_iff of_int_numeral of_int_power, metis of_int_less_iff of_int_numeral of_int_power)
  have b: "(2::rat) ^ nat (bitlen b - 1) \<le> of_int b" "(of_int b :: rat) < 2 ^ nat (bitlen b)"
    using bitlen_bounds[OF assms(2)]
    by (metis of_int_le_iff of_int_numeral of_int_power, metis of_int_less_iff of_int_numeral of_int_power)
  have pa: "(2::rat) ^ nat (bitlen a - 1) = power_int 2 (bitlen a - 1)"
    "(2::rat) ^ nat (bitlen a) = power_int 2 (bitlen a)"
    using la by (simp_all add: power_int_def)
  have pb: "(2::rat) ^ nat (bitlen b - 1) = power_int 2 (bitlen b - 1)"
    "(2::rat) ^ nat (bitlen b) = power_int 2 (bitlen b)"
    using lb by (simp_all add: power_int_def)
  have bpos: "(0::rat) < of_int b"
    using assms(2) by simp
  have "power_int (2::rat) (bitlen a - bitlen b - 1) * of_int b
      < power_int 2 (bitlen a - bitlen b - 1) * power_int 2 (bitlen b)"
    using b(2) by (simp add: pb)
  also have "\<dots> = power_int 2 (bitlen a - 1)"
    by (simp flip: power_int_add)
  also have "\<dots> \<le> of_int a"
    using a(1) by (simp add: pa)
  finally show "power_int (2::rat) (bitlen a - bitlen b - 1) < of_int a / of_int b"
    using bpos by (simp add: pos_less_divide_eq)
  have "(of_int a :: rat) < power_int 2 (bitlen a)"
    using a(2) by (simp add: pa)
  also have "\<dots> = power_int 2 (bitlen a - bitlen b + 1) * power_int 2 (bitlen b - 1)"
    by (simp flip: power_int_add)
  also have "\<dots> \<le> power_int 2 (bitlen a - bitlen b + 1) * of_int b"
    using b(1) by (simp add: pb)
  finally show "of_int a / of_int b < power_int (2::rat) (bitlen a - bitlen b + 1)"
    using bpos by (simp add: pos_divide_less_eq)
qed

lemma ilog2_bounds:
  assumes "0 < q"
  shows "power_int 2 (ilog2 q) \<le> q \<and> q < power_int 2 (ilog2 q + 1)"
proof -
  obtain a b where ab: "quotient_of q = (a, b)"
    by (cases "quotient_of q")
  then have q: "q = of_int a / of_int b" and b: "0 < b"
    by (simp_all add: quotient_of_div quotient_of_denom_pos)
  have a: "0 < a"
    using assms b unfolding q by (simp add: zero_less_divide_iff)
  note bd = power_int_bitlen_diff[OF a b, folded q]
  show ?thesis
  proof (cases "power_int 2 (bitlen a - bitlen b) \<le> q")
    case True
    then show ?thesis
      using bd(2) by (simp add: ilog2_def ab)
  next
    case False
    then show ?thesis
      using bd(1) by (simp add: ilog2_def ab)
  qed
qed

lemma round_half_even_error: "\<bar>of_int (round_half_even x) - x\<bar> \<le> 1 / 2"
proof -
  have "of_int \<lfloor>x\<rfloor> \<le> x" "x < of_int \<lfloor>x\<rfloor> + 1"
    by linarith+
  then show ?thesis
    unfolding round_half_even_def Let_def by (auto simp: abs_le_iff) 
qed


lemma round_double_nearest:
  assumes "round_double q = Fin r" and "q \<noteq> 0"
  shows "\<exists>m e. 0 \<le> m \<and> m \<le> 2 ^ 53 \<and> - 1074 \<le> e \<and>
           \<bar>r\<bar> = of_int m * power_int 2 e \<and> \<bar>r\<bar> < power_int 2 1024 \<and>
           \<bar>r - q\<bar> \<le> power_int 2 e / 2"
proof -
  define e where "e = max (ilog2 \<bar>q\<bar>) (- 1022) - 52"
  define x where "x = \<bar>q\<bar> / power_int 2 e"
  define m where "m = round_half_even x"
  have pe: "(0::rat) < power_int 2 e"
    by (simp add: power_int_def)
  have xpos: "0 < x"
    using assms(2) pe by (simp add: x_def)
  have err: "\<bar>of_int m - x\<bar> \<le> 1 / 2"
    unfolding m_def by (rule round_half_even_error)
  have "- 1 < (of_int m :: rat)"
    using err xpos by linarith
  then have "- 1 < m"
    by (metis of_int_less_iff of_int_minus of_int_1)
  then have m0: "0 \<le> m"
    by simp
  have qabs: "0 < \<bar>q\<bar>"
    using assms(2) by simp
  have "\<bar>q\<bar> < power_int 2 (e + 53)"
  proof -
    have "\<bar>q\<bar> < power_int 2 (ilog2 \<bar>q\<bar> + 1)"
      using ilog2_bounds[OF qabs] by simp
    also have "\<dots> \<le> power_int 2 (e + 53)"
      by (rule power_int_increasing) (simp_all add: e_def)
    finally show ?thesis .
  qed
  also have "power_int (2::rat) (e + 53) = power_int 2 e * 2 ^ 53"
    by (simp add: power_int_add)
  finally have "x < 2 ^ 53"
    using pe by (simp add: x_def pos_divide_less_eq mult.commute)
  with err have "(of_int m :: rat) < 2 ^ 53 + 1"
    by linarith
  then have "(of_int m :: rat) < of_int (2 ^ 53 + 1)"
    by simp
  then have "m < 2 ^ 53 + 1"
    by (simp only: of_int_less_iff)
  then have m53: "m \<le> 2 ^ 53"
    by simp
  define v where "v = of_int m * power_int (2::rat) e"
  have v0: "0 \<le> v"
    using m0 pe by (simp add: v_def)
  have rd: "round_double q = (if 1024 \<le> ilog2 v then (if 0 < q then PosInf else NegInf)
      else Fin (sgn q * v))"
    using assms(2) by (simp add: round_double_def Let_def e_def v_def m_def x_def)
  with assms(1) have small: "\<not> 1024 \<le> ilog2 v" and r: "r = sgn q * v"
    by (auto split: if_splits)
  have rabs: "\<bar>r\<bar> = v"
    using v0 assms(2) by (simp add: r abs_mult)
  have "q = sgn q * \<bar>q\<bar>"
    by (simp add: sgn_mult_abs)
  then have "r - q = sgn q * (v - \<bar>q\<bar>)"
    unfolding r by (metis right_diff_distrib)
  then have "\<bar>r - q\<bar> = \<bar>sgn q * (v - \<bar>q\<bar>)\<bar>"
    by simp
  also have "\<dots> = \<bar>v - \<bar>q\<bar>\<bar>"
    using assms(2) by (simp add: abs_mult)
  also have "v - \<bar>q\<bar> = (of_int m - x) * power_int 2 e"
    using pe by (simp add: v_def x_def algebra_simps)
  also have "\<bar>(of_int m - x) * power_int 2 e\<bar> \<le> 1 / 2 * power_int 2 e"
    using err pe by (simp add: abs_mult)
  finally have near: "\<bar>r - q\<bar> \<le> power_int 2 e / 2"
    by simp
  have vlt: "v < power_int 2 1024"
  proof (cases "v = 0")
    case True
    then show ?thesis by (simp add: power_int_def)
  next
    case False
    with v0 have "0 < v" by simp
    from ilog2_bounds[OF this] have "v < power_int 2 (ilog2 v + 1)"
      by simp
    also have "\<dots> \<le> power_int 2 1024"
      using small by (intro power_int_increasing) simp_all
    finally show ?thesis .
  qed
  have "- 1022 \<le> max (ilog2 \<bar>q\<bar>) (- 1022)"
    by (rule max.cobounded2)
  then have elo: "- 1074 \<le> e"
    unfolding e_def by linarith
  have "\<bar>r\<bar> = of_int m * power_int 2 e" "\<bar>r\<bar> < power_int 2 1024"
    using vlt by (simp_all only: rabs v_def)
  with m0 m53 near elo show ?thesis
    by (intro exI[of _ m] exI[of _ e] conjI)
qed

section \<open>Exact arithmetic on integers\<close>

text \<open>
  An integer of magnitude at most \<open>2 ^ 53\<close> is a binary64 value, so rounding leaves it as
  it is; sums and quotients that stay among such integers are exact.
\<close>

lemma round_half_even_of_int: "round_half_even (of_int z) = z"
  by (simp add: round_half_even_def)

lemma ilog2_of_int:
  assumes "0 < m"
  shows "ilog2 (of_int m) = bitlen m - 1"
proof -
  have b: "1 \<le> bitlen m"
    using assms by (simp add: bitlen_alt_def)
  have "(2::int) ^ nat (bitlen m - 1) \<le> m"
    using bitlen_bounds[OF assms] by simp
  then have "(of_int ((2::int) ^ nat (bitlen m - 1)) :: rat) \<le> of_int m"
    by (simp only: of_int_le_iff)
  then have "power_int (2::rat) (bitlen m - 1) \<le> of_int m"
    using b by (simp add: power_int_def)
  moreover have "bitlen 1 = 1"
    by (simp add: bitlen_alt_def)
  ultimately show ?thesis
    by (simp add: ilog2_def)
qed

lemma round_double_exact:
  assumes "q \<noteq> 0"
    and "\<bar>q\<bar> / power_int 2 (max (ilog2 \<bar>q\<bar>) (- 1022) - 52) = of_int z"
    and "ilog2 \<bar>q\<bar> < 1024"
  shows "round_double q = Fin q"
proof -
  define e where "e = max (ilog2 \<bar>q\<bar>) (- 1022) - 52"
  have pos: "(0::rat) < power_int 2 e"
    by (simp add: power_int_def)
  have "of_int z * power_int 2 e = \<bar>q\<bar>"
    using assms(2) pos unfolding e_def[symmetric] by (simp add: field_simps)
  moreover have "sgn q * \<bar>q\<bar> = q"
    by (simp add: sgn_mult_abs)
  ultimately show ?thesis
    using assms unfolding round_double_def e_def[symmetric] Let_def
    by (simp add: round_half_even_of_int)
qed

lemma round_double_of_int:
  assumes "\<bar>n\<bar> \<le> 2 ^ 53"
  shows "round_double (of_int n) = Fin (of_int n)"
proof (cases "n = 0")
  case True
  then show ?thesis by (simp add: round_double_def)
next
  case False
  define m where "m = \<bar>n\<bar>"
  have m: "0 < m" "m \<le> 2 ^ 53"
    using False assms by (simp_all add: m_def)
  have abs: "\<bar>of_int n :: rat\<bar> = of_int m"
    by (simp add: m_def)
  have lo: "1 \<le> bitlen m"
    using m by (simp add: bitlen_alt_def)
  have lower: "2 ^ nat (bitlen m - 1) \<le> m"
    using bitlen_bounds[OF m(1)] by simp
  have hi: "bitlen m \<le> 54"
  proof (rule ccontr)
    assume "\<not> bitlen m \<le> 54"
    then have "54 \<le> nat (bitlen m - 1)" by simp
    then have "(2::int) ^ 54 \<le> 2 ^ nat (bitlen m - 1)"
      by (rule power_increasing) simp
    with lower m(2) show False by simp
  qed
  define k where "k = bitlen m - 1"
  have k: "0 \<le> k" "k \<le> 53"
    using lo hi by (simp_all add: k_def)
  have e: "max (ilog2 (of_int m)) (- 1022) - 52 = k - 52"
    using k by (simp add: ilog2_of_int[OF m(1)] k_def)
  have "\<exists>z. (of_int m :: rat) / power_int 2 (k - 52) = of_int z"
  proof (cases "k = 53")
    case True
    then have "2 ^ 53 \<le> m"
      using lower by (simp add: k_def)
    with m have "m = 2 ^ 53" by simp
    then have "(of_int m :: rat) / power_int 2 (k - 52) = of_int (2 ^ 52)"
      using True by simp
    then show ?thesis ..
  next
    case False
    with k have "k - 52 \<le> 0" by simp
    then have "power_int (2::rat) (k - 52) = 1 / 2 ^ nat (52 - k)"
      by (simp add: power_int_def field_simps)
    then have "(of_int m :: rat) / power_int 2 (k - 52) = of_int (m * 2 ^ nat (52 - k))"
      by simp
    then show ?thesis ..
  qed
  then obtain z where z: "\<bar>of_int n :: rat\<bar> / power_int 2 (max (ilog2 \<bar>of_int n :: rat\<bar>) (- 1022) - 52) = of_int z"
    unfolding abs e by blast
  have "ilog2 \<bar>of_int n :: rat\<bar> < 1024"
    unfolding abs using hi by (simp add: ilog2_of_int[OF m(1)])
  with z False show ?thesis
    by (intro round_double_exact) simp_all
qed


lemma js_add_of_int:
  "\<bar>a + b\<bar> \<le> 2 ^ 53 \<Longrightarrow> js_add (Fin (of_int a)) (Fin (of_int b)) = Fin (of_int (a + b))"
  using round_double_of_int[of "a + b"] by simp

lemma integral_cases:
  assumes "integral x"
  obtains n where "x = Fin (of_int n)"
  using assms by (cases x) (auto intro: that[of "\<lfloor>rat_of x\<rfloor>"])

lemma of_int_bound: "\<bar>of_int n :: rat\<bar> \<le> 2 ^ 53 \<Longrightarrow> \<bar>n\<bar> \<le> 2 ^ 53"
proof -
  assume "\<bar>of_int n :: rat\<bar> \<le> 2 ^ 53"
  then have "(of_int \<bar>n\<bar> :: rat) \<le> of_int (2 ^ 53)"
    by simp
  then show ?thesis
    by (simp only: of_int_le_iff)
qed

lemma foldl_js_add_exact:
  assumes "list_all integral xs"
    and "\<bar>of_int a\<bar> + sum_list (map (\<lambda>x. \<bar>rat_of x\<bar>) xs) \<le> 2 ^ 53"
  shows "foldl js_add (Fin (of_int a)) xs = Fin (of_int a + sum_list (map rat_of xs))"
  using assms
proof (induction xs arbitrary: a)
  case Nil
  show ?case by simp
next
  case (Cons x xs)
  from Cons.prems(1) obtain n where x: "x = Fin (of_int n)"
    by (auto elim: integral_cases)
  have tot: "\<bar>rat_of_int a\<bar> + \<bar>rat_of_int n\<bar> + sum_list (map (\<lambda>x. \<bar>rat_of x\<bar>) xs) \<le> 2 ^ 53"
    using Cons.prems(2) by (simp add: x)
  have nonneg: "0 \<le> sum_list (map (\<lambda>x. \<bar>rat_of x\<bar>) xs)"
    by (rule sum_list_nonneg) auto
  have "\<bar>rat_of_int (a + n)\<bar> \<le> \<bar>rat_of_int a\<bar> + \<bar>rat_of_int n\<bar>"
    by simp
  with tot nonneg have b: "\<bar>rat_of_int (a + n)\<bar> \<le> 2 ^ 53"
    and b': "\<bar>rat_of_int (a + n)\<bar> + sum_list (map (\<lambda>x. \<bar>rat_of x\<bar>) xs) \<le> 2 ^ 53"
    by linarith+
  have step: "js_add (Fin (of_int a)) x = Fin (of_int (a + n))"
    unfolding x by (rule js_add_of_int) (rule of_int_bound[OF b])
  have "foldl js_add (Fin (of_int a)) (x # xs) = foldl js_add (js_add (Fin (of_int a)) x) xs"
    by (simp only: foldl.simps)
  also have "\<dots> = foldl js_add (Fin (of_int (a + n))) xs"
    by (simp only: step)
  also have "\<dots> = Fin (of_int (a + n) + sum_list (map rat_of xs))"
    using Cons.prems(1) b' by (intro Cons.IH) simp_all
  also have "of_int (a + n) + sum_list (map rat_of xs) = of_int a + sum_list (map rat_of (x # xs))"
    by (simp add: x)
  finally show ?case .
qed

lemma js_sum_exact: "exact_ints xs \<Longrightarrow> js_sum xs = Fin (sum_list (map rat_of xs))"
  using foldl_js_add_exact[of xs 0] by (simp add: exact_ints_def js_sum_def)

lemma sum_list_mset_cong:
  fixes f :: "'a \<Rightarrow> rat"
  assumes "mset xs = mset ys"
  shows "sum_list (map f xs) = sum_list (map f ys)"
proof -
  have "sum_list (map f xs) = sum_mset (mset (map f xs))"
    by (simp only: sum_mset_sum_list)
  also have "mset (map f xs) = mset (map f ys)"
    by (simp only: mset_map assms)
  also have "sum_mset (mset (map f ys)) = sum_list (map f ys)"
    by (simp only: sum_mset_sum_list)
  finally show ?thesis .
qed

lemma exact_ints_mset:
  assumes "mset xs = mset ys" and "exact_ints xs"
  shows "exact_ints ys \<and> sum_list (map rat_of ys) = sum_list (map rat_of xs)"
proof -
  have s: "set ys = set xs"
    using assms(1) by (rule mset_eq_setD[symmetric])
  have "sum_list (map f ys) = sum_list (map f xs)" for f :: "number \<Rightarrow> rat"
    by (rule sum_list_mset_cong[OF assms(1)[symmetric]])
  then show ?thesis
    using assms(2) s by (simp add: exact_ints_def list_all_iff)
qed

lemma mean_mset:
  assumes "mset xs = mset ys" and "exact_ints xs"
  shows "mean ys = mean xs"
proof -
  have "length ys = length xs"
    using assms(1) by (rule mset_eq_length[symmetric])
  moreover from exact_ints_mset[OF assms] have "js_sum ys = js_sum xs"
    using assms(2) by (simp add: js_sum_exact)
  ultimately show ?thesis
    by (simp add: mean_def)
qed

lemma stats_nonempty:
  "logs \<noteq> [] \<Longrightarrow>
   stats logs =
     \<lparr>accepted = length (filter (\<lambda>log. outcome log = Accepted) logs),
      declined = length (filter (\<lambda>log. outcome log = Declined) logs),
      avgFinalRate = mean (map final_rate logs),
      avgRounds = mean (map rounds logs)\<rparr>"
  by (simp add: stats_def mean_def js_sum_def foldl_map)

lemma length_filter_mset:
  "mset xs = mset ys \<Longrightarrow> length (filter P xs) = length (filter P ys)"
proof -
  assume "mset xs = mset ys"
  then have "filter_mset P (mset xs) = filter_mset P (mset ys)"
    by (rule arg_cong)
  then have "mset (filter P xs) = mset (filter P ys)"
    by (simp only: mset_filter)
  then show ?thesis
    by (rule mset_eq_length)
qed

lemma count_list_filter: "count_list (map f xs) a = length (filter (\<lambda>x. f x = a) xs)"
  by (induction xs) simp_all

lemma mean_exact:
  assumes "exact_ints xs" and "xs \<noteq> []"
  shows "mean xs = round_double (sum_list (map rat_of xs) / of_nat (length xs))"
  using assms by (simp add: mean_def js_sum_exact)

text \<open>
  Claim C4. On a non-empty sequence \<open>stats\<close> returns the number of accepted records,
  the number of declined records, and the arithmetic means of \<open>final_rate\<close> and of
  \<open>rounds\<close> over all records, the mean being the left-to-right sum divided by the
  count in the arithmetic of the program. Where the values are integers whose magnitudes
  add up to at most \<open>2 ^ 53\<close>, that mean is the exact mean rounded once. For three
  records with outcomes accepted, accepted, declined and rates 100, 200, 300 the average
  rate is 200, the accepted count 2 and the declined count 1.
\<close>

theorem summary_stats:
  assumes "logs \<noteq> []"
  shows "accepted (stats logs) = count_list (map outcome logs) Accepted \<and>
     declined (stats logs) = count_list (map outcome logs) Declined \<and>
     avgFinalRate (stats logs) = mean (map final_rate logs) \<and>
     avgRounds (stats logs) = mean (map rounds logs) \<and>
     (exact_ints (map final_rate logs) \<longrightarrow>
        avgFinalRate (stats logs) =
          round_double (sum_list (map rat_of (map final_rate logs)) / of_nat (length logs))) \<and>
     (exact_ints (map rounds logs) \<longrightarrow>
        avgRounds (stats logs) =
          round_double (sum_list (map rat_of (map rounds logs)) / of_nat (length logs))) \<and>
     (map outcome logs = [Accepted, Accepted, Declined] \<and>
      map final_rate logs = [Fin 100, Fin 200, Fin 300] \<longrightarrow>
        avgFinalRate (stats logs) = Fin 200 \<and> accepted (stats logs) = 2 \<and>
        declined (stats logs) = 1)"
proof -
  note st = stats_nonempty[OF assms]
  have counts: "accepted (stats logs) = count_list (map outcome logs) Accepted"
    "declined (stats logs) = count_list (map outcome logs) Declined"
    by (simp_all add: st count_list_filter)
  have means: "avgFinalRate (stats logs) = mean (map final_rate logs)"
    "avgRounds (stats logs) = mean (map rounds logs)"
    by (simp_all add: st)
  have exact: "mean (map f logs) = round_double (sum_list (map rat_of (map f logs)) / of_nat (length logs))"
    if "exact_ints (map f logs)" for f
    using mean_exact[OF that] assms by simp
  have scenario: "avgFinalRate (stats logs) = Fin 200 \<and> accepted (stats logs) = 2 \<and>
      declined (stats logs) = 1"
    if o: "map outcome logs = [Accepted, Accepted, Declined]"
      and r: "map final_rate logs = [Fin 100, Fin 200, Fin 300]"
  proof -
    have "exact_ints [Fin 100, Fin 200, Fin 300]"
      by (simp add: exact_ints_def)
    then have "mean [Fin 100, Fin 200, Fin 300] = round_double (of_int 200)"
      by (simp add: mean_exact)
    also have "\<dots> = Fin 200"
      using round_double_of_int[of 200] by simp
    finally show ?thesis
      by (simp add: counts means o r)
  qed
  have e1: "avgFinalRate (stats logs) =
      round_double (sum_list (map rat_of (map final_rate logs)) / of_nat (length logs))"
    if "exact_ints (map final_rate logs)"
    using exact[OF that] by (simp only: means)
  have e2: "avgRounds (stats logs) =
      round_double (sum_list (map rat_of (map rounds logs)) / of_nat (length logs))"
    if "exact_ints (map rounds logs)"
    using exact[OF that] by (simp only: means)
  have sc: "map outcome logs = [Accepted, Accepted, Declined] \<and>
      map final_rate logs = [Fin 100, Fin 200, Fin 300] \<longrightarrow>
      avgFinalRate (stats logs) = Fin 200 \<and> accepted (stats logs) = 2 \<and>
      declined (stats logs) = 1"
    using scenario by (intro impI) (elim conjE)
  from e1 have i1: "exact_ints (map final_rate logs) \<longrightarrow>
      avgFinalRate (stats logs) =
        round_double (sum_list (map rat_of (map final_rate logs)) / of_nat (length logs))"
    by (rule impI)
  from e2 have i2: "exact_ints (map rounds logs) \<longrightarrow>
      avgRounds (stats logs) =
        round_double (sum_list (map rat_of (map rounds logs)) / of_nat (length logs))"
    by (rule impI)
  from counts means i1 i2 sc show ?thesis
    by (intro conjI)
qed

theorem summary_stats_witness:
  "scenario_logs \<noteq> [] \<and>
   map outcome scenario_logs = [Accepted, Accepted, Declined] \<and>
   map final_rate scenario_logs = [Fin 100, Fin 200, Fin 300] \<and>
   exact_ints (map rounds scenario_logs) \<and>
   avgFinalRate (stats scenario_logs) = Fin 200 \<and>
   accepted (stats scenario_logs) = 2 \<and> declined (stats scenario_logs) = 1 \<and>
   avgRounds (stats scenario_logs) = Fin 2"
proof -
  have ne: "scenario_logs \<noteq> []"
    by (simp add: scenario_logs_def)
  have o: "map outcome scenario_logs = [Accepted, Accepted, Declined]"
    by (simp add: scenario_logs_def sample_log_def)
  have r: "map final_rate scenario_logs = [Fin 100, Fin 200, Fin 300]"
    by (simp add: scenario_logs_def sample_log_def)
  have rd: "map rounds scenario_logs = [Fin 1, Fin 2, Fin 3]"
    by (simp add: scenario_logs_def sample_log_def)
  have ex: "exact_ints (map rounds scenario_logs)"
    by (simp add: rd exact_ints_def)
  have len: "length scenario_logs = 3"
    by (simp add: scenario_logs_def)
  have two: "round_double (sum_list (map rat_of (map rounds scenario_logs)) /
      of_nat (length scenario_logs)) = Fin 2"
    using round_double_of_int[of 2] by (simp add: rd len)
  note th = summary_stats[OF ne]
  from th o r have s1: "avgFinalRate (stats scenario_logs) = Fin 200 \<and>
      accepted (stats scenario_logs) = 2 \<and> declined (stats scenario_logs) = 1"
    by blast
  from th ex have "avgRounds (stats scenario_logs) =
      round_double (sum_list (map rat_of (map rounds scenario_logs)) /
        of_nat (length scenario_logs))"
    by blast
  then have s2: "avgRounds (stats scenario_logs) = Fin 2"
    by (simp only: two)
  from ne o r ex s1 s2 show ?thesis
    by blast
qed

text \<open>
  Claim C6, as the code has it. A sum of binary64 values depends on the order of its
  terms, so the two averages are not the same for every permutation: the rates
  \<^verbatim>\<open>0.1\<close>, \<^verbatim>\<open>0.2\<close>, \<^verbatim>\<open>0.3\<close> average to \<^verbatim>\<open>0.20000000000000004\<close> in this order and to
  \<^verbatim>\<open>0.19999999999999998\<close> in the reverse order.
\<close>

lemma dime_forward:
  "avgFinalRate (stats dime_logs) = Fin (7205759403792795 / 36028797018963968)"
  by code_simp

lemma dime_backward:
  "avgFinalRate (stats (rev dime_logs)) = Fin (7205759403792793 / 36028797018963968)"
  by code_simp

theorem stats_order_counterexample:
  "mset (rev dime_logs) = mset dime_logs \<and>
   avgFinalRate (stats dime_logs) = Fin (7205759403792795 / 36028797018963968) \<and>
   avgFinalRate (stats (rev dime_logs)) = Fin (7205759403792793 / 36028797018963968) \<and>
   stats (rev dime_logs) \<noteq> stats dime_logs"
proof -
  have "avgFinalRate (stats (rev dime_logs)) \<noteq> avgFinalRate (stats dime_logs)"
    by (simp add: dime_forward dime_backward)
  then have "stats (rev dime_logs) \<noteq> stats dime_logs"
    by auto
  then show ?thesis
    by (simp add: dime_forward dime_backward)
qed

text \<open>
  Claim C6, amended. For every permutation of a record sequence the accepted and the
  declined count are the same; the average rate is the same when the rates are integers
  whose magnitudes add up to at most \<open>2 ^ 53\<close>, and so is the average of the rounds
  under the same condition on the rounds.
\<close>

theorem stats_permutation:
  assumes "mset logs' = mset logs"
  shows "accepted (stats logs') = accepted (stats logs) \<and>
     declined (stats logs') = declined (stats logs) \<and>
     (exact_ints (map final_rate logs) \<longrightarrow> avgFinalRate (stats logs') = avgFinalRate (stats logs)) \<and>
     (exact_ints (map rounds logs) \<longrightarrow> avgRounds (stats logs') = avgRounds (stats logs))"
proof (cases "logs = []")
  case True
  with assms show ?thesis by simp
next
  case False
  then have ne: "logs' \<noteq> []"
    using assms by auto
  have m: "mset (map f logs) = mset (map f logs')" for f :: "LogData \<Rightarrow> number"
    by (simp only: mset_map assms)
  have "mean (map f logs') = mean (map f logs)" if "exact_ints (map f logs)" for f
    using m that by (rule mean_mset)
  then show ?thesis
    by (simp add: stats_nonempty[OF False] stats_nonempty[OF ne]
        length_filter_mset[OF assms])
qed

lemma sample_exact_rates: "exact_ints (map final_rate sample_logs)"
  by code_simp

lemma sample_exact_rounds: "exact_ints (map rounds sample_logs)"
  by code_simp

theorem stats_permutation_witness:
  "mset (rev sample_logs) = mset sample_logs \<and>
   exact_ints (map final_rate sample_logs) \<and> exact_ints (map rounds sample_logs) \<and>
   accepted (stats (rev sample_logs)) = accepted (stats sample_logs) \<and>
   declined (stats (rev sample_logs)) = declined (stats sample_logs) \<and>
   avgFinalRate (stats (rev sample_logs)) = avgFinalRate (stats sample_logs) \<and>
   avgRounds (stats (rev sample_logs)) = avgRounds (stats sample_logs)"
proof -
  have p: "mset (rev sample_logs) = mset sample_logs"
    by simp
  from stats_permutation[OF p] sample_exact_rates sample_exact_rounds p show ?thesis
    by blast
qed

section \<open>Grouping by a key\<close>

lemma first_occurrences_Nil: "first_occurrences [] = []"
  by simp

lemma set_first_occurrences: "set (first_occurrences xs) = set xs"
  by (induction xs) auto

lemma distinct_first_occurrences: "distinct (first_occurrences xs)"
  by (induction xs) (simp_all add: set_first_occurrences)

lemma first_occurrences_snoc:
  "first_occurrences (xs @ [x]) =
     (if x \<in> set xs then first_occurrences xs else first_occurrences xs @ [x])"
  by (induction xs) (auto simp: set_first_occurrences)

lemma first_occurrences_map_inj:
  "inj f \<Longrightarrow> first_occurrences (map f xs) = map f (first_occurrences xs)"
  by (induction xs rule: rev_induct)
     (auto simp: first_occurrences_Nil first_occurrences_snoc dest: injD)

lemma update_graph:
  "distinct ks \<Longrightarrow>
   AList.update k v (map (\<lambda>a. (a, g a)) ks) =
     (if k \<in> set ks then map (\<lambda>a. (a, (g(k := v)) a)) ks
      else map (\<lambda>a. (a, g a)) ks @ [(k, v)])"
  by (induction ks) auto

lemma map_entry_graph:
  "distinct ks \<Longrightarrow>
   AList.map_entry k h (map (\<lambda>a. (a, g a)) ks) = map (\<lambda>a. (a, (g(k := h (g k))) a)) ks"
  by (induction ks) auto

lemma map_of_graph:
  "map_of (map (\<lambda>a. (a, g a)) ks) k = (if k \<in> set ks then Some (g k) else None)"
  by (induction ks) auto



lemma count_fold:
  "foldl (\<lambda>acc x. AList.update (f x) (or_zero (map_of acc (f x)) + 1) acc) [] xs =
     map (\<lambda>k. (k, count_list (map f xs) k)) (first_occurrences (map f xs))"
proof (induction xs rule: rev_induct)
  case Nil
  show ?case by (simp add: first_occurrences_Nil)
next
  case (snoc x xs)
  let ?ks = "first_occurrences (map f xs)"
  let ?c = "count_list (map f xs)"
  let ?acc = "map (\<lambda>k. (k, ?c k)) ?ks"
  have step: "foldl (\<lambda>acc x. AList.update (f x) (or_zero (map_of acc (f x)) + 1) acc) [] (xs @ [x])
      = AList.update (f x) (or_zero (map_of ?acc (f x)) + 1) ?acc"
    by (simp only: foldl_append foldl.simps snoc.IH)
  have c': "count_list (map f (xs @ [x])) = (?c)(f x := ?c (f x) + 1)"
    by (rule ext) simp
  show ?case
  proof (cases "f x \<in> set ?ks")
    case True
    then have "?c (f x) \<noteq> 0"
      by (simp add: count_list_0_iff set_first_occurrences)
    then have "or_zero (map_of ?acc (f x)) = ?c (f x)"
      using True by (simp add: map_of_graph or_zero_def)
    then have "AList.update (f x) (or_zero (map_of ?acc (f x)) + 1) ?acc
        = map (\<lambda>a. (a, ((?c)(f x := ?c (f x) + 1)) a)) ?ks"
      using True by (simp only: update_graph[OF distinct_first_occurrences] if_True)
    moreover have "first_occurrences (map f (xs @ [x])) = ?ks"
      using True by (simp add: first_occurrences_snoc set_first_occurrences)
    ultimately show ?thesis
      by (simp only: step c')
  next
    case False
    then have z: "?c (f x) = 0"
      by (simp add: count_list_0_iff set_first_occurrences)
    have "or_zero (map_of ?acc (f x)) = 0"
      using False by (simp add: map_of_graph or_zero_def)
    then have "AList.update (f x) (or_zero (map_of ?acc (f x)) + 1) ?acc = ?acc @ [(f x, 1)]"
      using False by (simp only: update_graph[OF distinct_first_occurrences] if_False) simp
    moreover have fo: "first_occurrences (map f (xs @ [x])) = ?ks @ [f x]"
      using False by (simp add: first_occurrences_snoc set_first_occurrences)
    moreover have "map (\<lambda>k. (k, ((?c)(f x := ?c (f x) + 1)) k)) (?ks @ [f x]) = ?acc @ [(f x, 1)]"
      using False z by auto
    ultimately show ?thesis
      by (simp only: step c')
  qed
qed

lemma sum_counts:
  "sum_list (map (count_list xs) (first_occurrences xs)) = length xs"
proof -
  have "sum_list (map (count_list xs) (first_occurrences xs)) =
      sum (count_list xs) (set (first_occurrences xs))"
    by (rule sum_list_distinct_conv_sum_set[OF distinct_first_occurrences])
  also have "\<dots> = sum (count_list xs) (set xs)"
    by (simp only: set_first_occurrences)
  also have "\<dots> = length xs"
    by (rule sum_count_set) simp_all
  finally show ?thesis .
qed

lemma inj_outcome_str: "inj outcome_str"
proof (rule injI)
  fix a b
  assume "outcome_str a = outcome_str b"
  then show "a = b" by (cases a; cases b) simp_all
qed

lemma count_list_map_inj:
  "inj f \<Longrightarrow> count_list (map (\<lambda>x. f (g x)) xs) (f a) = count_list (map g xs) a"
  by (induction xs) (simp_all add: inj_eq)


lemma outcomeCounts_eq:
  "outcomeCounts logs =
     map (\<lambda>a. (outcome_str a, count_list (map outcome logs) a)) (first_occurrences (map outcome logs))"
proof -
  let ?f = "\<lambda>log. outcome_str (outcome log)"
  have m: "map ?f logs = map outcome_str (map outcome logs)"
    by simp
  have "outcomeCounts logs =
      map (\<lambda>k. (k, count_list (map ?f logs) k)) (first_occurrences (map ?f logs))"
    unfolding outcomeCounts_def by (rule count_fold)
  also have "first_occurrences (map ?f logs) = map outcome_str (first_occurrences (map outcome logs))"
    by (simp only: m first_occurrences_map_inj[OF inj_outcome_str])
  finally show ?thesis
    by (simp add: o_def count_list_map_inj[OF inj_outcome_str])
qed

text \<open>
  Claim C3. \<open>computeOutcomeDistribution\<close> has exactly one entry for each outcome that
  occurs in the input and none for an outcome that does not, in the order in which the
  outcomes first occur; the entry of an outcome carries the number of records with that
  outcome, and the counts add up to the length of the input.
\<close>

theorem outcome_distribution:
  "computeOutcomeDistribution logs =
     map (\<lambda>a. \<lparr>name = replace_first (CHR ''_'') (CHR '' '') (outcome_str a),
               val = count_list (map outcome logs) a,
               color = map_of OUTCOME_COLORS (outcome_str a)\<rparr>)
       (first_occurrences (map outcome logs)) \<and>
   length (computeOutcomeDistribution logs) = card (outcome ` set logs) \<and>
   sum_list (map val (computeOutcomeDistribution logs)) = length logs"
proof -
  have eq: "computeOutcomeDistribution logs =
     map (\<lambda>a. \<lparr>name = replace_first (CHR ''_'') (CHR '' '') (outcome_str a),
               val = count_list (map outcome logs) a,
               color = map_of OUTCOME_COLORS (outcome_str a)\<rparr>)
       (first_occurrences (map outcome logs))"
    by (simp add: computeOutcomeDistribution_def outcomeCounts_eq)
  have "map val (computeOutcomeDistribution logs) =
      map (count_list (map outcome logs)) (first_occurrences (map outcome logs))"
    unfolding eq by simp
  then have total: "sum_list (map val (computeOutcomeDistribution logs)) = length (map outcome logs)"
    by (simp only: sum_counts)
  have "length (computeOutcomeDistribution logs) = length (first_occurrences (map outcome logs))"
    unfolding eq by simp
  also have "\<dots> = card (set (first_occurrences (map outcome logs)))"
    by (rule distinct_card[OF distinct_first_occurrences, symmetric])
  also have "\<dots> = card (outcome ` set logs)"
    by (simp add: set_first_occurrences)
  finally show ?thesis
    using eq total by simp
qed

text \<open>
  In the sample the outcomes first occur in the order no agreement, declined, accepted.
\<close>

theorem outcome_distribution_witness:
  "computeOutcomeDistribution sample_logs =
     [\<lparr>name = ''no agreement'', val = 2, color = Some ''#f59e0b''\<rparr>,
      \<lparr>name = ''declined'', val = 3, color = Some ''#ef4444''\<rparr>,
      \<lparr>name = ''accepted'', val = 5, color = Some ''#10b981''\<rparr>] \<and>
   first_occurrences (map outcome sample_logs) = [No_agreement, Declined, Accepted] \<and>
   length sample_logs = 10"
proof -
  have f: "first_occurrences (map outcome sample_logs) = [No_agreement, Declined, Accepted]"
    by code_simp
  have c: "map (count_list (map outcome sample_logs)) [No_agreement, Declined, Accepted] = [2, 3, 5]"
    by code_simp
  have col: "map (\<lambda>a. map_of OUTCOME_COLORS (outcome_str a)) [No_agreement, Declined, Accepted] =
      [Some ''#f59e0b'', Some ''#ef4444'', Some ''#10b981'']"
    by code_simp
  have n: "length sample_logs = 10"
    by code_simp
  from outcome_distribution[of sample_logs] show ?thesis
    using c col n by (simp add: f)
qed

section \<open>The daily rate trend\<close>

lemma dailyRates_snoc:
  "dailyRates parse (xs @ [x]) = dailyRates_step parse (dailyRates parse xs) x"
  by (simp add: dailyRates_def)

lemma dailyRates_valid:
  assumes "\<forall>log\<in>set logs. parse (created_at log) = Some (tv log)"
  shows "dailyRates parse logs =
     Inr (map (\<lambda>d. (d, (map final_rate (filter (\<lambda>log. toISODate (tv log) = d) logs), d)))
            (first_occurrences (map (\<lambda>log. toISODate (tv log)) logs)))"
  using assms
proof (induction logs rule: rev_induct)
  case Nil
  show ?case by (simp add: dailyRates_def first_occurrences_Nil)
next
  case (snoc x xs)
  let ?day = "\<lambda>log. toISODate (tv log)"
  let ?ks = "first_occurrences (map ?day xs)"
  let ?g = "\<lambda>d. (map final_rate (filter (\<lambda>log. ?day log = d) xs), d)"
  let ?g' = "\<lambda>d. (map final_rate (filter (\<lambda>log. ?day log = d) (xs @ [x])), d)"
  let ?h = "\<lambda>(rates, d'). (rates @ [final_rate x], d' :: int)"
  let ?ks' = "first_occurrences (map ?day (xs @ [x]))"
  have px: "parse (created_at x) = Some (tv x)"
    using snoc.prems by simp
  have IH: "dailyRates parse xs = Inr (map (\<lambda>d. (d, ?g d)) ?ks)"
    using snoc by simp
  have m': "(if map_of (map (\<lambda>d. (d, ?g d)) ?ks) (?day x) = None
             then AList.update (?day x) ([], ?day x) (map (\<lambda>d. (d, ?g d)) ?ks)
             else map (\<lambda>d. (d, ?g d)) ?ks) = map (\<lambda>d. (d, ?g d)) ?ks'"
  proof (cases "?day x \<in> set ?ks")
    case True
    then show ?thesis
      by (simp add: map_of_graph first_occurrences_snoc set_first_occurrences)
  next
    case False
    then have "filter (\<lambda>log. ?day log = ?day x) xs = []"
      by (auto simp: set_first_occurrences filter_empty_conv image_iff)
    then have "?g (?day x) = ([], ?day x)"
      by simp
    moreover have "?ks' = ?ks @ [?day x]"
      using False by (simp add: first_occurrences_snoc set_first_occurrences)
    moreover have "AList.update (?day x) ([], ?day x) (map (\<lambda>d. (d, ?g d)) ?ks)
        = map (\<lambda>d. (d, ?g d)) ?ks @ [(?day x, ([], ?day x))]"
      using False by (simp only: update_graph[OF distinct_first_occurrences] if_False)
    ultimately show ?thesis
      using False by (simp add: map_of_graph)
  qed
  have "dailyRates parse (xs @ [x]) =
      Inr (AList.map_entry (?day x) ?h (map (\<lambda>d. (d, ?g d)) ?ks'))"
    by (simp only: dailyRates_snoc IH dailyRates_step_def px m' Let_def sum.case option.case)
  also have "AList.map_entry (?day x) ?h (map (\<lambda>d. (d, ?g d)) ?ks') =
      map (\<lambda>a. (a, (?g(?day x := ?h (?g (?day x)))) a)) ?ks'"
    by (rule map_entry_graph[OF distinct_first_occurrences])
  also have "\<dots> = map (\<lambda>d. (d, ?g' d)) ?ks'"
    by (rule map_cong) simp_all
  finally show ?case .
qed


lemma insort_key_map:
  "insort_key f (Q k) (map Q ks) = map Q (insort_key (\<lambda>a. f (Q a)) k ks)"
  by (induction ks) simp_all

lemma sort_key_map: "sort_key f (map Q ks) = map Q (sort_key (\<lambda>a. f (Q a)) ks)"
  by (induction ks) (simp_all add: insort_key_map)

lemma getTime_le_iff: "getTime a \<le> getTime b \<longleftrightarrow> a \<le> b"
  by (simp add: getTime_def msPerDay_def)

lemma insort_key_getTime: "insort_key getTime x ys = insort x ys"
  by (induction ys) (simp_all add: getTime_le_iff)

lemma sort_key_getTime: "sort_key getTime ks = sort ks"
  by (induction ks) (simp_all add: insort_key_getTime)

lemma sort_first_occurrences: "sort (first_occurrences xs) = sorted_list_of_set (set xs)"
proof (rule sorted_distinct_set_unique)
  show "sorted (sort (first_occurrences xs))" by simp
  show "distinct (sort (first_occurrences xs))" by (simp add: distinct_first_occurrences)
  show "sorted (sorted_list_of_set (set xs))" by simp
  show "distinct (sorted_list_of_set (set xs))" by simp
  show "set (sort (first_occurrences xs)) = set (sorted_list_of_set (set xs))"
    by (simp add: set_first_occurrences)
qed

lemma trend_valid:
  assumes "\<forall>log\<in>set logs. parse (created_at log) = Some (tv log)"
  shows "computeDailyRateTrend parse logs =
     Inr (map (\<lambda>d. \<lparr>date = d,
                    avgRate = mean (map final_rate (filter (\<lambda>log. toISODate (tv log) = d) logs))\<rparr>)
            (slice_last 7 (sorted_list_of_set (set (map (\<lambda>log. toISODate (tv log)) logs)))))"
proof -
  let ?ks = "first_occurrences (map (\<lambda>log. toISODate (tv log)) logs)"
  let ?Q = "\<lambda>d. \<lparr>date = d,
      avgRate = mean (map final_rate (filter (\<lambda>log. toISODate (tv log) = d) logs))\<rparr>"
  have "computeDailyRateTrend parse logs =
      Inr (slice_last 7 (sort_key (\<lambda>a. getTime (date a)) (map ?Q ?ks)))"
    by (simp add: computeDailyRateTrend_def dailyRates_valid[OF assms] o_def mean_def js_sum_def)
  also have "sort_key (\<lambda>a. getTime (date a)) (map ?Q ?ks) = map ?Q (sort ?ks)"
    by (simp add: sort_key_map sort_key_getTime[unfolded getTime_def] getTime_def)
  also have "slice_last 7 (map ?Q (sort ?ks)) = map ?Q (slice_last 7 (sort ?ks))"
    by (simp add: slice_last_def drop_map)
  finally show ?thesis
    by (simp only: sort_first_occurrences)
qed


lemma dailyRates_invalid:
  "\<exists>log\<in>set logs. parse (created_at log) = None \<Longrightarrow> dailyRates parse logs = Inl RangeError"
proof (induction logs rule: rev_induct)
  case Nil
  then show ?case by simp
next
  case (snoc x xs)
  show ?case
  proof (cases "\<exists>log\<in>set xs. parse (created_at log) = None")
    case True
    then have "dailyRates parse xs = Inl RangeError"
      by (rule snoc.IH)
    then show ?thesis
      by (simp add: dailyRates_snoc dailyRates_step_def)
  next
    case False
    with snoc.prems have "parse (created_at x) = None"
      by auto
    then show ?thesis
      by (cases "dailyRates parse xs"; cases "projl (dailyRates parse xs)")
         (simp_all add: dailyRates_snoc dailyRates_step_def)
  qed
qed

lemma slice_last_suffix: "suffix (slice_last n xs) xs"
  by (simp add: slice_last_def suffix_drop)

lemma length_slice_last: "length (slice_last n xs) = min n (length xs)"
  by (simp add: slice_last_def)

lemma map_filter_valid:
  assumes "\<forall>x\<in>set xs. f x \<noteq> None"
  shows "List.map_filter f xs = map (\<lambda>x. the (f x)) xs"
  using assms by (induction xs) (auto simp: List.map_filter_simps)

lemma sample_valid: "\<forall>log\<in>set sample_logs. sample_parse (created_at log) \<noteq> None"
  by code_simp

lemma sample_trend:
  "computeDailyRateTrend sample_parse sample_logs =
     Inr [\<lparr>date = 19725, avgRate = Fin 1300\<rparr>, \<lparr>date = 19726, avgRate = Fin 1400\<rparr>,
          \<lparr>date = 19727, avgRate = Fin 1550\<rparr>, \<lparr>date = 19728, avgRate = Fin 1650\<rparr>,
          \<lparr>date = 19729, avgRate = Fin 1700\<rparr>, \<lparr>date = 19730, avgRate = Fin 1800\<rparr>,
          \<lparr>date = 19731, avgRate = Fin 1900\<rparr>]"
  by code_simp

text \<open>
  Claim C1. For a record sequence whose \<^verbatim>\<open>created_at\<close> values are all valid dates,
  \<open>computeDailyRateTrend\<close> returns a table whose dates are the last seven of the
  distinct UTC calendar dates of the records in ascending order (all of them when
  there are fewer than seven), and the average rate of each entry is the arithmetic
  mean of \<open>final_rate\<close> over the records of that date; so the table has at most seven
  entries and its dates are in non-decreasing order.
\<close>

theorem daily_rate_trend:
  assumes "\<forall>log\<in>set logs. parse (created_at log) \<noteq> None"
  shows "\<exists>tr. computeDailyRateTrend parse logs = Inr tr \<and>
     map date tr = slice_last 7 (dates_present parse logs) \<and>
     (\<forall>p\<in>set tr. avgRate p =
        mean (map final_rate (filter (\<lambda>log. utc_date parse log = Some (date p)) logs))) \<and>
     suffix (map date tr) (dates_present parse logs) \<and>
     length tr = min 7 (length (dates_present parse logs)) \<and>
     length tr \<le> 7 \<and> sorted (map date tr)"
proof -
  define tv where "tv = (\<lambda>log::LogData. the (parse (created_at log)))"
  have valid: "\<forall>log\<in>set logs. parse (created_at log) = Some (tv log)"
    using assms by (auto simp: tv_def)
  let ?Q = "\<lambda>d. \<lparr>date = d,
      avgRate = mean (map final_rate (filter (\<lambda>log. toISODate (tv log) = d) logs))\<rparr>"
  define tr where "tr = map ?Q (slice_last 7 (sorted_list_of_set (set (map (\<lambda>log. toISODate (tv log)) logs))))"
  have run: "computeDailyRateTrend parse logs = Inr tr"
    unfolding tr_def by (rule trend_valid[OF valid])
  have "\<forall>log\<in>set logs. utc_date parse log \<noteq> None"
    using valid by (simp add: utc_date_def)
  then have "List.map_filter (utc_date parse) logs = map (\<lambda>log. the (utc_date parse log)) logs"
    by (rule map_filter_valid)
  also have "\<dots> = map (\<lambda>log. toISODate (tv log)) logs"
    using valid by (simp add: utc_date_def)
  finally have ds: "dates_present parse logs =
      sorted_list_of_set (set (map (\<lambda>log. toISODate (tv log)) logs))"
    by (simp only: dates_present_def)
  have dates: "map date tr = slice_last 7 (dates_present parse logs)"
    by (simp add: tr_def ds o_def)
  have flt: "filter (\<lambda>log. utc_date parse log = Some d) logs =
      filter (\<lambda>log. toISODate (tv log) = d) logs" for d
    using valid by (intro filter_cong) (auto simp: utc_date_def)
  have avg: "\<forall>p\<in>set tr. avgRate p =
      mean (map final_rate (filter (\<lambda>log. utc_date parse log = Some (date p)) logs))"
    by (auto simp: tr_def flt)
  have "sorted (drop (length (dates_present parse logs) - 7) (dates_present parse logs))"
    unfolding dates_present_def by (rule sorted_wrt_drop) simp
  then have srt: "sorted (map date tr)"
    by (simp add: dates slice_last_def)
  have len: "length tr = min 7 (length (dates_present parse logs))"
    using arg_cong[OF dates, of length] by (simp add: length_slice_last)
  from run dates avg srt len show ?thesis
    by (auto simp: slice_last_suffix)
qed

text \<open>
  Ten records on the nine dates 2024-01-01 to 2024-01-09 (days 19723 to 19731): the
  table has the seven dates from 2024-01-03 on.
\<close>

theorem daily_rate_trend_witness:
  "list_all (\<lambda>log. sample_parse (created_at log) \<noteq> None) sample_logs \<and>
   computeDailyRateTrend sample_parse sample_logs =
     Inr [\<lparr>date = 19725, avgRate = Fin 1300\<rparr>, \<lparr>date = 19726, avgRate = Fin 1400\<rparr>,
          \<lparr>date = 19727, avgRate = Fin 1550\<rparr>, \<lparr>date = 19728, avgRate = Fin 1650\<rparr>,
          \<lparr>date = 19729, avgRate = Fin 1700\<rparr>, \<lparr>date = 19730, avgRate = Fin 1800\<rparr>,
          \<lparr>date = 19731, avgRate = Fin 1900\<rparr>] \<and>
   slice_last 7 (dates_present sample_parse sample_logs) =
     [19725, 19726, 19727, 19728, 19729, 19730, 19731]"
proof -
  from daily_rate_trend[OF sample_valid] obtain tr where
    "computeDailyRateTrend sample_parse sample_logs = Inr tr"
    "map date tr = slice_last 7 (dates_present sample_parse sample_logs)"
    by blast
  then have "slice_last 7 (dates_present sample_parse sample_logs) =
      [19725, 19726, 19727, 19728, 19729, 19730, 19731]"
    by (auto simp: sample_trend)
  then show ?thesis
    using sample_valid by (simp add: sample_trend list_all_iff)
qed

text \<open>
  Claim C10. The dates of a table that \<open>computeDailyRateTrend\<close> returns are pairwise
  distinct and strictly increasing: each calendar date has one entry.
\<close>

theorem trend_dates_strictly_increasing:
  assumes "computeDailyRateTrend parse logs = Inr tr"
  shows "distinct (map date tr) \<and> sorted_wrt (<) (map date tr)"
proof -
  have ok: "dailyRates parse logs \<noteq> Inl RangeError"
    using assms by (auto simp: computeDailyRateTrend_def)
  have valid: "\<forall>log\<in>set logs. parse (created_at log) \<noteq> None"
  proof (rule ccontr)
    assume "\<not> (\<forall>log\<in>set logs. parse (created_at log) \<noteq> None)"
    then have "\<exists>log\<in>set logs. parse (created_at log) = None"
      by simp
    then have "dailyRates parse logs = Inl RangeError"
      by (rule dailyRates_invalid)
    with ok show False by simp
  qed
  define tv where "tv = (\<lambda>log::LogData. the (parse (created_at log)))"
  have "\<forall>log\<in>set logs. parse (created_at log) = Some (tv log)"
    using valid by (auto simp: tv_def)
  from trend_valid[OF this] assms
  have "map date tr = slice_last 7 (sorted_list_of_set (set (map (\<lambda>log. toISODate (tv log)) logs)))"
    by (auto simp: o_def)
  moreover have "sorted_wrt (<)
      (drop n (sorted_list_of_set (set (map (\<lambda>log. toISODate (tv log)) logs))))" for n
    by (rule sorted_wrt_drop) (simp add: strict_sorted_iff)
  ultimately have "sorted_wrt (<) (map date tr)"
    by (simp add: slice_last_def)
  then show ?thesis
    by (simp add: strict_sorted_iff)
qed

theorem trend_dates_strictly_increasing_witness:
  "computeDailyRateTrend sample_parse sample_logs =
     Inr [\<lparr>date = 19725, avgRate = Fin 1300\<rparr>, \<lparr>date = 19726, avgRate = Fin 1400\<rparr>,
          \<lparr>date = 19727, avgRate = Fin 1550\<rparr>, \<lparr>date = 19728, avgRate = Fin 1650\<rparr>,
          \<lparr>date = 19729, avgRate = Fin 1700\<rparr>, \<lparr>date = 19730, avgRate = Fin 1800\<rparr>,
          \<lparr>date = 19731, avgRate = Fin 1900\<rparr>] \<and>
   distinct [19725, 19726, 19727, 19728, 19729, 19730, 19731 :: int] \<and>
   sorted_wrt (<) [19725, 19726, 19727, 19728, 19729, 19730, 19731 :: int]"
  using trend_dates_strictly_increasing[OF sample_trend] sample_trend by simp

section \<open>Properties of the proxy route\<close>

text \<open>
  Claim C5, as the code has it. An upstream response with a status outside 200 to 299 is
  not relayed with its body: the reply carries the status and a message made by the
  handler. An upstream response with another status of the 2xx range is answered with
  status 200.
\<close>

theorem api_logs_counterexample:
  "api_logs (Response 404 ''Not Found'' (Some ''{\"error\":\"no logs\"}'')) =
     (404, Message ''External API error: 404 Not Found'') \<and>
   api_logs (Response 404 ''Not Found'' (Some ''{\"error\":\"no logs\"}'')) \<noteq>
     (404, Json ''{\"error\":\"no logs\"}'') \<and>
   api_logs (Response 201 ''Created'' (Some ''[]'')) = (200, Json ''[]'')"
  by code_simp

text \<open>
  Claim C5, amended. When the request fails, or the body of a response with a status
  from 200 to 299 does not decode, the reply is status 500 with a fixed message. A response
  with a status from 200 to 299 whose body decodes is answered with status 200 and the
  decoded body, so a response with status 200 is relayed as it is. A response with any
  other status is answered with that status and the message
  \<^verbatim>\<open>External API error:\<close> followed by the status and the status text.
\<close>

theorem api_logs_spec:
  "api_logs Rejected = (500, Message ''Failed to fetch data from external API'') \<and>
   (200 \<le> status \<and> status \<le> 299 \<longrightarrow>
      api_logs (Response status statusText None) =
        (500, Message ''Failed to fetch data from external API'') \<and>
      api_logs (Response status statusText (Some body)) = (200, Json body)) \<and>
   api_logs (Response 200 statusText (Some body)) = (200, Json body) \<and>
   (\<not> (200 \<le> status \<and> status \<le> 299) \<longrightarrow>
      api_logs (Response status statusText b) =
        (status, Message (''External API error: '' @ digits status @ '' '' @ statusText)))"
  by (simp add: api_logs_def)

theorem api_logs_spec_witness:
  "api_logs (Response 200 ''OK'' (Some ''[]'')) = (200, Json ''[]'') \<and>
   api_logs (Response 204 ''No Content'' (None :: string option)) =
     (500, Message ''Failed to fetch data from external API'') \<and>
   api_logs (Response 503 ''Service Unavailable'' (None :: string option)) =
     (503, Message ''External API error: 503 Service Unavailable'')"
proof -
  have d: "digits 503 = ''503''"
    by code_simp
  have ok: "(200::nat) \<le> 204 \<and> (204::nat) \<le> 299"
    and bad: "\<not> ((200::nat) \<le> 503 \<and> (503::nat) \<le> 299)"
    by simp_all
  from api_logs_spec[of 204 "''No Content''" "''[]''" "None :: string option"] ok
  have a: "api_logs (Response 204 ''No Content'' (None :: string option)) =
     (500, Message ''Failed to fetch data from external API'')"
    by blast
  from api_logs_spec[of 503 "''Service Unavailable''" "''[]''" "None :: string option"] bad
  have b: "api_logs (Response 503 ''Service Unavailable'' (None :: string option)) =
     (503, Message (''External API error: '' @ digits 503 @ '' '' @ ''Service Unavailable''))"
    by blast
  from api_logs_spec[of 200 "''OK''" "''[]''" "None :: string option"]
  have c: "api_logs (Response 200 ''OK'' (Some ''[]'')) = (200, Json ''[]'')"
    by blast
  from a b c show ?thesis
    by (simp add: d)
qed

end
